theory Spec2Isabelle
  imports Complex_Main "HOL-Library.AList" "HOL-Library.Sublist"
begin

section \<open>Arrays, dictionaries and exceptions\<close>

text \<open>
  The script \<^verbatim>\<open>code/toy-gaussian.py\<close> computes with numpy arrays of floats. Floats are
  idealised as reals. A one-dimensional array is a list of reals, a two-dimensional
  array the list of its rows. A Python \<^verbatim>\<open>dict\<close> from group names to arrays is an
  association list in insertion order. Every exception the script can raise is a value
  of \<open>error\<close>, and a fallible computation returns \<open>error + 'a\<close>.
\<close>

datatype error = KeyError | IndexError | ValueError | ZeroDivisionError

type_synonym vec = "real list"
type_synonym matrix = "real list list"
type_synonym pdict = "(string \<times> vec) list"

text \<open>\<^verbatim>\<open>np.zeros(n)\<close>.\<close>

definition zeros :: "nat \<Rightarrow> vec" where
  "zeros n = replicate n 0"

text \<open>
  An elementwise binary operation on two one-dimensional arrays, with numpy's
  broadcasting: equal lengths combine pointwise, a length-one operand is stretched,
  anything else raises \<^verbatim>\<open>ValueError\<close>.
\<close>

definition bc2 :: "(real \<Rightarrow> real \<Rightarrow> real) \<Rightarrow> vec \<Rightarrow> vec \<Rightarrow> error + vec" where
  "bc2 f xs ys =
     (if length xs = length ys then Inr (map2 f xs ys)
      else if length xs = 1 then Inr (map (f (hd xs)) ys)
      else if length ys = 1 then Inr (map (\<lambda>x. f x (hd ys)) xs)
      else Inl ValueError)"

text \<open>
  The in-place \<^verbatim>\<open>a += w\<close>: the result keeps the shape of \<open>a\<close>, so \<open>w\<close> must have
  the length of \<open>a\<close> or length one.
\<close>

definition iadd :: "vec \<Rightarrow> vec \<Rightarrow> error + vec" where
  "iadd a w =
     (if length w = length a then Inr (map2 (+) a w)
      else if length w = 1 then Inr (map (\<lambda>x. x + hd w) a)
      else Inl ValueError)"

text \<open>A Python scalar times an array.\<close>

definition smul :: "real \<Rightarrow> vec \<Rightarrow> vec" where
  "smul c xs = map ((*) c) xs"

text \<open>Running a fallible function over a list, stopping at the first exception.\<close>

fun emap :: "('a \<Rightarrow> error + 'b) \<Rightarrow> 'a list \<Rightarrow> error + 'b list" where
  "emap f [] = Inr []"
| "emap f (x # xs) =
     (case f x of Inl e \<Rightarrow> Inl e
      | Inr y \<Rightarrow> (case emap f xs of Inl e \<Rightarrow> Inl e | Inr ys \<Rightarrow> Inr (y # ys)))"

section \<open>The collaborators outside the script\<close>

text \<open>
  Modelled from the spec: the shapes of what \<^verbatim>\<open>glorot_uniform\<close> returns (module
  \<^verbatim>\<open>nn\<close> is missing). The critic's parameters are
  \<^verbatim>\<open>{"W": [W0, W1, W2], "b": [b0, b1, b2]}\<close> as \<^verbatim>\<open>make_critic\<close> builds them; the
  first two weights are matrices and the last one, with fan-in \<open>0\<close>, is a vector, so that
  the output layer produces one scalar per input row.
\<close>

record cparams =
  W0 :: matrix
  W1 :: matrix
  W2 :: vec
  b0 :: vec
  b1 :: vec
  b2 :: vec

text \<open>
  What the script imports and the sources at hand do not contain is a parameter of the
  model: the random generators of numpy and scipy over a generator state \<open>'r\<close>, the
  Gaussian proposal of the module \<^verbatim>\<open>proposals\<close>, the initialiser
  \<^verbatim>\<open>glorot_uniform\<close> of the module \<^verbatim>\<open>nn\<close> (a matrix for a positive fan-in, a
  vector for fan-in \<open>0\<close>), and the derivatives autograd builds: of \<^verbatim>\<open>predict\<close> with
  respect to its input, and of \<^verbatim>\<open>loss_critic\<close> with respect to the critic's parameters,
  the latter as a function of all that the loss reads. A function that takes \<^verbatim>\<open>random_state\<close> receives the state of the
  generator it is to use (the seeded one, or the process-wide one when the script
  passes nothing) and returns the advanced state.
\<close>

record 'r env =
  seed_rng :: "nat \<Rightarrow> 'r"
  norm_rvs :: "nat \<Rightarrow> real \<Rightarrow> real \<Rightarrow> 'r \<Rightarrow> vec \<times> 'r"
  permutation :: "nat \<Rightarrow> 'r \<Rightarrow> nat list \<times> 'r"
  rand :: "nat \<Rightarrow> 'r \<Rightarrow> vec \<times> 'r"
  gaussian_draw :: "pdict \<Rightarrow> nat \<Rightarrow> 'r \<Rightarrow> error + (matrix \<times> 'r)"
  grad_gaussian_logpdf :: "pdict \<Rightarrow> vec \<Rightarrow> error + pdict"
  grad_gaussian_entropy :: "pdict \<Rightarrow> error + pdict"
  grad_predict_critic :: "matrix \<Rightarrow> cparams \<Rightarrow> error + matrix"
  d_loss_critic :: "cparams \<Rightarrow> pdict \<Rightarrow> matrix \<Rightarrow> nat \<Rightarrow> real \<Rightarrow> nat \<Rightarrow> 'r \<Rightarrow> cparams"
  glorot_matrix :: "nat \<Rightarrow> nat \<Rightarrow> 'r \<Rightarrow> matrix \<times> 'r"
  glorot_vector :: "nat \<Rightarrow> 'r \<Rightarrow> vec \<times> 'r"
  make_gaussian_proposal :: "nat \<Rightarrow> real \<Rightarrow> pdict"

section \<open>Simulator\<close>

text \<open>
  \<^verbatim>\<open>simulator(theta, n_samples, random_state)\<close>: \<open>n_samples\<close> normal draws with
  location \<open>theta[0]\<close> and scale \<open>exp(theta[1])\<close>, reshaped to one column.
\<close>

definition simulator :: "'r env \<Rightarrow> vec \<Rightarrow> nat \<Rightarrow> 'r \<Rightarrow> error + (matrix \<times> 'r)" where
  "simulator E theta n_samples rs =
     (if length theta < 2 then Inl IndexError
      else (case norm_rvs E n_samples (theta ! 0) (exp (theta ! 1)) rs of
              (xs, rs') \<Rightarrow> Inr (map (\<lambda>x. [x]) xs, rs')))"

section \<open>Critic\<close>

text \<open>
  Modelled from the spec: \<^verbatim>\<open>relu\<close> is in the module \<^verbatim>\<open>nn\<close>, which is not part
  of the sources at hand; it is the leaky rectifier with negative slope \<open>alpha\<close>.
\<close>

definition relu :: "real \<Rightarrow> real \<Rightarrow> real" where
  "relu alpha x = (if 0 < x then x else alpha * x)"

text \<open>The inner product of a weight row with an input row; the lengths must agree.\<close>

definition dot :: "vec \<Rightarrow> vec \<Rightarrow> error + real" where
  "dot w x = (if length w = length x then Inr (sum_list (map2 (*) w x)) else Inl ValueError)"

text \<open>
  One hidden layer on one row \<open>h\<close>: the row of \<^verbatim>\<open>relu(np.dot(W, h.T).T + b, alpha=0.1)\<close>.
\<close>

definition hidden_layer :: "matrix \<Rightarrow> vec \<Rightarrow> vec \<Rightarrow> error + vec" where
  "hidden_layer W b h =
     (case emap (\<lambda>w. dot w h) W of Inl e \<Rightarrow> Inl e
      | Inr z \<Rightarrow> (case bc2 (+) z b of Inl e \<Rightarrow> Inl e
                 | Inr a \<Rightarrow> Inr (map (relu (1 / 10)) a)))"

text \<open>
  \<^verbatim>\<open>predict(X, params)\<close>, row by row: two hidden layers, then the linear output layer
  \<^verbatim>\<open>np.dot(W2, h.T).T + b2\<close>, which yields one score per row.
\<close>

definition predict :: "matrix \<Rightarrow> cparams \<Rightarrow> error + vec" where
  "predict X params =
     (case emap (hidden_layer (W0 params) (b0 params)) X of Inl e \<Rightarrow> Inl e
      | Inr h1 \<Rightarrow>
     (case emap (hidden_layer (W1 params) (b1 params)) h1 of Inl e \<Rightarrow> Inl e
      | Inr h2 \<Rightarrow>
     (case emap (dot (W2 params)) h2 of Inl e \<Rightarrow> Inl e
      | Inr z \<Rightarrow> bc2 (+) z (b2 params))))"

section \<open>The gradient estimator of the proposal\<close>

text \<open>
  The inner loop \<^verbatim>\<open>for k, v in grad_q.items(): grad_u[k] += -dx * v\<close>. A key that
  \<open>grad_u\<close> lacks raises \<^verbatim>\<open>KeyError\<close>.
\<close>

fun accumulate :: "pdict \<Rightarrow> vec \<Rightarrow> pdict \<Rightarrow> error + pdict" where
  "accumulate grad_u dx [] = Inr grad_u"
| "accumulate grad_u dx ((k, v) # grad_q) =
     (case map_of grad_u k of None \<Rightarrow> Inl KeyError
      | Some a \<Rightarrow>
     (case bc2 (*) (map uminus dx) v of Inl e \<Rightarrow> Inl e
      | Inr w \<Rightarrow>
     (case iadd a w of Inl e \<Rightarrow> Inl e
      | Inr a' \<Rightarrow> accumulate (AList.update k a' grad_u) dx grad_q)))"

text \<open>
  The loop \<^verbatim>\<open>for theta in thetas\<close>. \<^verbatim>\<open>simulator(theta, 1)\<close> is called without a
  \<^verbatim>\<open>random_state\<close>, so it draws from the process-wide generator, whose state \<open>g\<close>
  is threaded through the loop.
\<close>

fun grad_u_loop ::
  "'r env \<Rightarrow> cparams \<Rightarrow> pdict \<Rightarrow> pdict \<Rightarrow> matrix \<Rightarrow> 'r \<Rightarrow> error + (pdict \<times> 'r)" where
  "grad_u_loop E params_critic params_proposal grad_u [] g = Inr (grad_u, g)"
| "grad_u_loop E params_critic params_proposal grad_u (theta # thetas) g =
     (case simulator E theta 1 g of Inl e \<Rightarrow> Inl e
      | Inr (x, g') \<Rightarrow>
     (case predict x params_critic of Inl e \<Rightarrow> Inl e
      | Inr dx \<Rightarrow>
     (case grad_gaussian_logpdf E params_proposal theta of Inl e \<Rightarrow> Inl e
      | Inr grad_q \<Rightarrow>
     (case accumulate grad_u dx grad_q of Inl e \<Rightarrow> Inl e
      | Inr grad_u' \<Rightarrow>
          grad_u_loop E params_critic params_proposal grad_u' thetas g'))))"

text \<open>The loop \<^verbatim>\<open>for k, v in grad_entropy.items(): grad_ent[k] += v\<close>.\<close>

fun add_entropy :: "pdict \<Rightarrow> pdict \<Rightarrow> error + pdict" where
  "add_entropy grad_ent [] = Inr grad_ent"
| "add_entropy grad_ent ((k, v) # grad_entropy) =
     (case map_of grad_ent k of None \<Rightarrow> Inl KeyError
      | Some a \<Rightarrow>
     (case iadd a v of Inl e \<Rightarrow> Inl e
      | Inr a' \<Rightarrow> add_entropy (AList.update k a' grad_ent) grad_entropy))"

text \<open>
  The loop \<^verbatim>\<open>for k in grad_u: grad_u[k] = 1. / M * grad_u[k] + gamma * grad_ent[k]\<close>
  over the entries of \<open>grad_u\<close>. \<^verbatim>\<open>1. / M\<close> raises \<^verbatim>\<open>ZeroDivisionError\<close> when
  \<open>M\<close> is \<open>0\<close>.
\<close>

fun finish :: "nat \<Rightarrow> real \<Rightarrow> pdict \<Rightarrow> pdict \<Rightarrow> error + pdict" where
  "finish M gamma grad_ent [] = Inr []"
| "finish M gamma grad_ent ((k, a) # grad_u) =
     (if M = 0 then Inl ZeroDivisionError
      else (case map_of grad_ent k of None \<Rightarrow> Inl KeyError
            | Some b \<Rightarrow>
           (case bc2 (+) (smul (1 / real M) a) (smul gamma b) of Inl e \<Rightarrow> Inl e
            | Inr c \<Rightarrow>
           (case finish M gamma grad_ent grad_u of Inl e \<Rightarrow> Inl e
            | Inr rest \<Rightarrow> Inr ((k, c) # rest)))))"

text \<open>
  \<^verbatim>\<open>approx_grad_u(params_proposal, i, gamma)\<close>. It reads the globals
  \<^verbatim>\<open>batch_size\<close> and \<^verbatim>\<open>params_critic\<close>; \<open>g\<close> is the state of the process-wide
  generator, returned advanced. The generator seeded with \<open>i\<close> serves the draw of the
  \<open>thetas\<close> only.
\<close>

definition approx_grad_u ::
  "'r env \<Rightarrow> nat \<Rightarrow> cparams \<Rightarrow> pdict \<Rightarrow> nat \<Rightarrow> real \<Rightarrow> 'r \<Rightarrow> error + (pdict \<times> 'r)" where
  "approx_grad_u E batch_size params_critic params_proposal i gamma g =
     (let rng = seed_rng E i;
          grad_u0 = map (\<lambda>(k, v). (k, zeros (length v))) params_proposal;
          grad_ent0 = map (\<lambda>(k, v). (k, zeros (length v))) params_proposal
      in case gaussian_draw E params_proposal batch_size rng of Inl e \<Rightarrow> Inl e
         | Inr (thetas, rng') \<Rightarrow>
        (case grad_u_loop E params_critic params_proposal grad_u0 thetas g of Inl e \<Rightarrow> Inl e
         | Inr (grad_u, g') \<Rightarrow>
        (case grad_gaussian_entropy E params_proposal of Inl e \<Rightarrow> Inl e
         | Inr grad_entropy \<Rightarrow>
        (case add_entropy grad_ent0 grad_entropy of Inl e \<Rightarrow> Inl e
         | Inr grad_ent \<Rightarrow>
        (case finish (length thetas) gamma grad_ent grad_u of Inl e \<Rightarrow> Inl e
         | Inr res \<Rightarrow> Inr (res, g'))))))"

section \<open>The critic's loss\<close>

text \<open>
  \<^verbatim>\<open>np.mean\<close> of a one-dimensional array. On an empty array numpy warns and returns
  \<^verbatim>\<open>nan\<close>, here \<open>None\<close>; arithmetic on \<^verbatim>\<open>nan\<close> gives \<^verbatim>\<open>nan\<close>.
\<close>

definition mean :: "vec \<Rightarrow> real option" where
  "mean xs = (if xs = [] then None else Some (sum_list xs / real (length xs)))"

text \<open>\<^verbatim>\<open>l_wgan + lambda_gp * l_gp\<close> on two such values.\<close>

definition add_scaled :: "real option \<Rightarrow> real \<Rightarrow> real option \<Rightarrow> real option" where
  "add_scaled a c b =
     (case a of None \<Rightarrow> None
      | Some x \<Rightarrow> (case b of None \<Rightarrow> None | Some y \<Rightarrow> Some (x + c * y)))"

text \<open>
  \<^verbatim>\<open>n_features = X_obs.shape[1]\<close>: the simulator reshapes its draws to one column.
\<close>

definition n_features :: nat where
  "n_features = 1"

text \<open>
  \<^verbatim>\<open>y_critic = np.zeros(batch_size); y_critic[batch_size // 2:] = 1.0\<close>.
\<close>

definition labels :: "nat \<Rightarrow> vec" where
  "labels batch_size =
     take (batch_size div 2) (zeros batch_size) @
     replicate (length (zeros batch_size) - batch_size div 2) 1"

text \<open>
  The assignment \<^verbatim>\<open>_X_gen[j, :] = row\<close>: the row has the width of the matrix or
  width one; \<open>j\<close> beyond the last row raises \<^verbatim>\<open>IndexError\<close>.
\<close>

definition assign_row :: "matrix \<Rightarrow> nat \<Rightarrow> vec \<Rightarrow> error + matrix" where
  "assign_row A j row =
     (if length A \<le> j then Inl IndexError
      else if length row = length (A ! j) then Inr (A[j := row])
      else if length row = 1 then Inr (A[j := replicate (length (A ! j)) (hd row)])
      else Inl ValueError)"

text \<open>
  The loop \<^verbatim>\<open>for j, theta in enumerate(thetas)\<close> that fills \<open>_X_gen\<close> with one
  simulated observation per \<open>theta\<close>, drawn from the generator seeded with \<open>i\<close>.
\<close>

fun fill_gen :: "'r env \<Rightarrow> matrix \<Rightarrow> nat \<Rightarrow> matrix \<Rightarrow> 'r \<Rightarrow> error + (matrix \<times> 'r)" where
  "fill_gen E X_gen j [] rng = Inr (X_gen, rng)"
| "fill_gen E X_gen j (theta # thetas) rng =
     (case simulator E theta 1 rng of Inl e \<Rightarrow> Inl e
      | Inr (x, rng') \<Rightarrow>
     (case assign_row X_gen j (concat x) of Inl e \<Rightarrow> Inl e
      | Inr X_gen' \<Rightarrow> fill_gen E X_gen' (Suc j) thetas rng'))"

text \<open>\<^verbatim>\<open>X_obs[indices]\<close>: the rows of \<open>X_obs\<close> at the given indices.\<close>

definition select_rows :: "matrix \<Rightarrow> nat list \<Rightarrow> error + matrix" where
  "select_rows A idx = emap (\<lambda>i. if i < length A then Inr (A ! i) else Inl IndexError) idx"

text \<open>\<^verbatim>\<open>np.vstack([A, B])\<close>: the rows of \<open>A\<close>, then those of \<open>B\<close>, of one width.\<close>

definition vstack :: "nat \<Rightarrow> matrix \<Rightarrow> matrix \<Rightarrow> error + matrix" where
  "vstack width A B =
     (if (\<forall>r \<in> set (A @ B). length r = width) then Inr (A @ B) else Inl ValueError)"

text \<open>
  An elementwise binary operation on two matrices, with numpy's broadcasting of the
  rows and, within a row, of the columns.
\<close>

definition bcm :: "(real \<Rightarrow> real \<Rightarrow> real) \<Rightarrow> matrix \<Rightarrow> matrix \<Rightarrow> error + matrix" where
  "bcm f A B =
     (if length A = length B then emap (\<lambda>(a, b). bc2 f a b) (zip A B)
      else if length A = 1 then emap (bc2 f (hd A)) B
      else if length B = 1 then emap (\<lambda>a. bc2 f a (hd B)) A
      else Inl ValueError)"

text \<open>
  The batch of \<^verbatim>\<open>loss_critic\<close> (the lines up to \<^verbatim>\<open>np.vstack\<close>): the labels, the
  generated rows, the observed rows, their stack, and the two generator states.
\<close>

record 'r batch =
  y_critic :: vec
  X_gen :: matrix
  X_sel :: matrix
  X_all :: matrix
  rng_after :: 'r
  g_after :: 'r

text \<open>
  \<^verbatim>\<open>gaussian_draw(params_proposal, batch_size // 2)\<close> is called without a
  \<^verbatim>\<open>random_state\<close> and draws from the process-wide generator \<open>g\<close>; the simulator
  and the permutation draw from the generator seeded with \<open>i\<close>.
\<close>

definition critic_batch ::
  "'r env \<Rightarrow> pdict \<Rightarrow> matrix \<Rightarrow> nat \<Rightarrow> nat \<Rightarrow> 'r \<Rightarrow> error + 'r batch" where
  "critic_batch E params_proposal X_obs i batch_size g =
     (let y = labels batch_size;
          rng = seed_rng E i
      in case gaussian_draw E params_proposal (batch_size div 2) g of Inl e \<Rightarrow> Inl e
         | Inr (thetas, g') \<Rightarrow>
        (case fill_gen E (replicate (batch_size div 2) (zeros n_features)) 0 thetas rng of
           Inl e \<Rightarrow> Inl e
         | Inr (Xg, rng1) \<Rightarrow>
        (case permutation E (length X_obs) rng1 of (indices, rng2) \<Rightarrow>
        (case select_rows X_obs (take (batch_size div 2) indices) of Inl e \<Rightarrow> Inl e
         | Inr Xo \<Rightarrow>
        (case vstack n_features Xg Xo of Inl e \<Rightarrow> Inl e
         | Inr X \<Rightarrow>
             Inr \<lparr>y_critic = y, X_gen = Xg, X_sel = Xo, X_all = X,
                  rng_after = rng2, g_after = g'\<rparr>)))))"

text \<open>\<^verbatim>\<open>np.mean(-y_critic * y_pred + (1. - y_critic) * y_pred)\<close>.\<close>

definition wgan_term :: "vec \<Rightarrow> vec \<Rightarrow> error + real option" where
  "wgan_term y y_pred =
     (case bc2 (*) (map uminus y) y_pred of Inl e \<Rightarrow> Inl e
      | Inr a \<Rightarrow>
     (case bc2 (*) (map (\<lambda>l. 1 - l) y) y_pred of Inl e \<Rightarrow> Inl e
      | Inr b \<Rightarrow>
     (case bc2 (+) a b of Inl e \<Rightarrow> Inl e
      | Inr s \<Rightarrow> Inr (mean s))))"

text \<open>\<^verbatim>\<open>_X_hat = eps * _X_obs + (1. - eps) * _X_gen\<close>, \<open>eps\<close> being one column.\<close>

definition interpolate :: "vec \<Rightarrow> matrix \<Rightarrow> matrix \<Rightarrow> error + matrix" where
  "interpolate eps Xo Xg =
     (case bcm (*) (map (\<lambda>e. [e]) eps) Xo of Inl e \<Rightarrow> Inl e
      | Inr A \<Rightarrow>
     (case bcm (*) (map (\<lambda>e. [1 - e]) eps) Xg of Inl e \<Rightarrow> Inl e
      | Inr B \<Rightarrow> bcm (+) A B))"

text \<open>\<^verbatim>\<open>norms = np.sum(grad_Dx ** 2, axis=1) ** 0.5\<close>.\<close>

definition row_norms :: "matrix \<Rightarrow> vec" where
  "row_norms G = map (\<lambda>row. sqrt (sum_list (map (\<lambda>x. x ^ 2) row))) G"

text \<open>\<^verbatim>\<open>l_gp = np.mean((norms - 1.0) ** 2.0)\<close>.\<close>

definition gp_term :: "vec \<Rightarrow> real option" where
  "gp_term norms = mean (map (\<lambda>n. (n - 1) ^ 2) norms)"

text \<open>
  \<^verbatim>\<open>loss_critic(params_critic, i, lambda_gp, batch_size)\<close>. It reads the globals
  \<^verbatim>\<open>params_proposal\<close> and \<^verbatim>\<open>X_obs\<close>, and returns the loss with the advanced
  state of the process-wide generator.
\<close>

definition loss_critic ::
  "'r env \<Rightarrow> pdict \<Rightarrow> matrix \<Rightarrow> cparams \<Rightarrow> nat \<Rightarrow> real \<Rightarrow> nat \<Rightarrow> 'r
     \<Rightarrow> error + (real option \<times> 'r)" where
  "loss_critic E params_proposal X_obs params_critic i lambda_gp batch_size g =
     (case critic_batch E params_proposal X_obs i batch_size g of Inl e \<Rightarrow> Inl e
      | Inr B \<Rightarrow>
     (case predict (X_all B) params_critic of Inl e \<Rightarrow> Inl e
      | Inr y_pred \<Rightarrow>
     (case wgan_term (y_critic B) y_pred of Inl e \<Rightarrow> Inl e
      | Inr l_wgan \<Rightarrow>
     (case rand E (batch_size div 2) (rng_after B) of (eps, rng3) \<Rightarrow>
     (case interpolate eps (X_sel B) (X_gen B) of Inl e \<Rightarrow> Inl e
      | Inr X_hat \<Rightarrow>
     (case grad_predict_critic E X_hat params_critic of Inl e \<Rightarrow> Inl e
      | Inr grad_Dx \<Rightarrow>
          Inr (add_scaled l_wgan lambda_gp (gp_term (row_norms grad_Dx)), g_after B)))))))"

section \<open>What the estimator is to compute\<close>

text \<open>The keys of a dictionary with the lengths of their arrays, in order.\<close>

definition shape :: "pdict \<Rightarrow> (string \<times> nat) list" where
  "shape d = map (\<lambda>(k, v). (k, length v)) d"

text \<open>
  A gradient dictionary for \<open>params\<close>: the keys of \<open>params\<close>, each with an array of
  the length of the parameter it belongs to.
\<close>

definition grad_dict_of :: "pdict \<Rightarrow> pdict \<Rightarrow> bool" where
  "grad_dict_of params d \<longleftrightarrow>
     distinct (map fst d) \<and>
     (\<forall>k. map_option length (map_of d k) = map_option length (map_of params k))"

text \<open>
  For each drawn \<open>theta\<close> in turn: one simulated observation, the critic's score of it
  and the gradient of the proposal's log-density at \<open>theta\<close>.
\<close>

fun scored_draws ::
  "'r env \<Rightarrow> cparams \<Rightarrow> pdict \<Rightarrow> matrix \<Rightarrow> 'r \<Rightarrow> error + ((vec \<times> pdict) list \<times> 'r)" where
  "scored_draws E params_critic params_proposal [] g = Inr ([], g)"
| "scored_draws E params_critic params_proposal (theta # thetas) g =
     (case simulator E theta 1 g of Inl e \<Rightarrow> Inl e
      | Inr (x, g') \<Rightarrow>
     (case predict x params_critic of Inl e \<Rightarrow> Inl e
      | Inr dx \<Rightarrow>
     (case grad_gaussian_logpdf E params_proposal theta of Inl e \<Rightarrow> Inl e
      | Inr grad_q \<Rightarrow>
     (case scored_draws E params_critic params_proposal thetas g' of Inl e \<Rightarrow> Inl e
      | Inr (rest, g'') \<Rightarrow> Inr ((dx, grad_q) # rest, g'')))))"

text \<open>
  The estimate in closed form: component \<open>c\<close> of group \<open>k\<close> is the sum over the draws
  of minus the score times the log-density gradient, divided by \<open>M\<close>, plus \<open>gamma\<close> times
  the entropy gradient.
\<close>

definition estimate ::
  "nat \<Rightarrow> real \<Rightarrow> pdict \<Rightarrow> (vec \<times> pdict) list \<Rightarrow> pdict \<Rightarrow> pdict" where
  "estimate M gamma params terms grad_entropy =
     map (\<lambda>(k, v).
        (k, map (\<lambda>c. (\<Sum>(dx, grad_q) \<leftarrow> terms. - hd dx * (the (map_of grad_q k) ! c)) / real M
                     + gamma * (the (map_of grad_entropy k) ! c))
              [0..<length v])) params"

section \<open>A small instance of the collaborators\<close>

text \<open>
  A generator whose state is a counter, a proposal whose draws read the counter, and a
  critic with one hidden unit per layer: small enough to run the model by rewriting.
\<close>

definition E0 :: "nat env" where
  "E0 = \<lparr>seed_rng = (\<lambda>i. i),
         norm_rvs = (\<lambda>n loc scale r. (map (\<lambda>j. loc + scale * real (r + j)) [0..<n], r + n)),
         permutation = (\<lambda>n r. (rev [0..<n], Suc r)),
         rand = (\<lambda>n r. (replicate n (1 / 2), r + n)),
         gaussian_draw = (\<lambda>pp n r. Inr (map (\<lambda>j. [real (r + j), 0]) [0..<n], r + n)),
         grad_gaussian_logpdf = (\<lambda>pp theta. Inr (map (\<lambda>(k, v). (k, map (\<lambda>x. hd theta) v)) pp)),
         grad_gaussian_entropy = (\<lambda>pp. Inr (map (\<lambda>(k, v). (k, map (\<lambda>x. 1) v)) pp)),
         grad_predict_critic = (\<lambda>X p. Inr (map (\<lambda>r. [1]) X)),
         d_loss_critic = (\<lambda>p pp X i l n r.
           \<lparr>W0 = map (map (\<lambda>x. 0)) (W0 p), W1 = map (map (\<lambda>x. 0)) (W1 p),
            W2 = map (\<lambda>x. 0) (W2 p), b0 = map (\<lambda>x. 0) (b0 p),
            b1 = map (\<lambda>x. 0) (b1 p), b2 = map (\<lambda>x. 0) (b2 p)\<rparr>),
         glorot_matrix = (\<lambda>n k r. (replicate n (replicate k (real r)), Suc r)),
         glorot_vector = (\<lambda>n r. (replicate n (real r), Suc r)),
         make_gaussian_proposal = (\<lambda>n mu. [(''mu'', replicate n mu), (''beta'', replicate n 0)])\<rparr>"

definition pc0 :: cparams where
  "pc0 = \<lparr>W0 = [[1]], W1 = [[1]], W2 = [1], b0 = [0], b1 = [0], b2 = [0]\<rparr>"

definition pp0 :: pdict where
  "pp0 = [(''mu'', [0, 0]), (''beta'', [0, 0])]"

section \<open>What the critic's loss is to compute\<close>





text \<open>Observed data for the small instance.\<close>

definition X_obs0 :: matrix where
  "X_obs0 = [[10], [20], [30]]"

text \<open>The batch the small instance builds for seed \<open>1\<close> and batch size \<open>2\<close>.\<close>

definition B0 :: "nat batch" where
  "B0 = \<lparr>y_critic = [0, 1], X_gen = [[4]], X_sel = [[30]], X_all = [[4], [30]],
          rng_after = 3, g_after = 4\<rparr>"

section \<open>The gradient estimator on a store of arrays\<close>

text \<open>
  \<^verbatim>\<open>approx_grad_u\<close> updates arrays in place (\<^verbatim>\<open>grad_u[k] += ...\<close>), and the parameter
  dictionary it is given holds references to arrays that the caller owns. Here arrays
  live in a store, a dictionary maps its keys to addresses, \<^verbatim>\<open>np.zeros\<close> and
  arithmetic allocate a new array at the end of the store, and \<^verbatim>\<open>+=\<close> overwrites
  the array at an address.
\<close>

type_synonym store = "vec list"
type_synonym rdict = "(string \<times> nat) list"

definition alloc :: "vec \<Rightarrow> store \<Rightarrow> nat \<times> store" where
  "alloc v st = (length st, st @ [v])"

text \<open>The dictionary of arrays that a dictionary of references stands for.\<close>

definition deref :: "store \<Rightarrow> rdict \<Rightarrow> pdict" where
  "deref st d = map (\<lambda>(k, a). (k, st ! a)) d"

text \<open>
  \<^verbatim>\<open>{k: np.zeros(len(params_proposal[k])) for k in params_proposal}\<close>: a new array
  for every key.
\<close>

fun zeros_like :: "rdict \<Rightarrow> store \<Rightarrow> rdict \<times> store" where
  "zeros_like [] st = ([], st)"
| "zeros_like ((k, a) # d) st =
     (case alloc (zeros (length (st ! a))) st of (b, st1) \<Rightarrow>
     (case zeros_like d st1 of (d', st2) \<Rightarrow> ((k, b) # d', st2)))"

text \<open>The inner loop, \<^verbatim>\<open>grad_u[k] += -dx * v\<close> written to the array \<open>grad_u[k]\<close>.\<close>

fun accumulate_st :: "rdict \<Rightarrow> vec \<Rightarrow> pdict \<Rightarrow> store \<Rightarrow> error + store" where
  "accumulate_st grad_u dx [] st = Inr st"
| "accumulate_st grad_u dx ((k, v) # grad_q) st =
     (case map_of grad_u k of None \<Rightarrow> Inl KeyError
      | Some a \<Rightarrow>
     (case bc2 (*) (map uminus dx) v of Inl e \<Rightarrow> Inl e
      | Inr w \<Rightarrow>
     (case iadd (st ! a) w of Inl e \<Rightarrow> Inl e
      | Inr a' \<Rightarrow> accumulate_st grad_u dx grad_q (st[a := a']))))"

text \<open>
  The loop over the draws; the log-density gradient reads the parameters through their
  references, in the store as it is then.
\<close>

fun grad_u_loop_st ::
  "'r env \<Rightarrow> cparams \<Rightarrow> rdict \<Rightarrow> rdict \<Rightarrow> matrix \<Rightarrow> 'r \<Rightarrow> store \<Rightarrow> error + ('r \<times> store)" where
  "grad_u_loop_st E params_critic params_proposal grad_u [] g st = Inr (g, st)"
| "grad_u_loop_st E params_critic params_proposal grad_u (theta # thetas) g st =
     (case simulator E theta 1 g of Inl e \<Rightarrow> Inl e
      | Inr (x, g') \<Rightarrow>
     (case predict x params_critic of Inl e \<Rightarrow> Inl e
      | Inr dx \<Rightarrow>
     (case grad_gaussian_logpdf E (deref st params_proposal) theta of Inl e \<Rightarrow> Inl e
      | Inr grad_q \<Rightarrow>
     (case accumulate_st grad_u dx grad_q st of Inl e \<Rightarrow> Inl e
      | Inr st' \<Rightarrow>
          grad_u_loop_st E params_critic params_proposal grad_u thetas g' st'))))"

text \<open>\<^verbatim>\<open>grad_ent[k] += v\<close> written to the array \<open>grad_ent[k]\<close>.\<close>

fun add_entropy_st :: "rdict \<Rightarrow> pdict \<Rightarrow> store \<Rightarrow> error + store" where
  "add_entropy_st grad_ent [] st = Inr st"
| "add_entropy_st grad_ent ((k, v) # grad_entropy) st =
     (case map_of grad_ent k of None \<Rightarrow> Inl KeyError
      | Some a \<Rightarrow>
     (case iadd (st ! a) v of Inl e \<Rightarrow> Inl e
      | Inr a' \<Rightarrow> add_entropy_st grad_ent grad_entropy (st[a := a'])))"

text \<open>
  \<^verbatim>\<open>grad_u[k] = 1. / M * grad_u[k] + gamma * grad_ent[k]\<close>: the right-hand side is a
  new array, to which the key is bound.
\<close>

fun finish_st :: "nat \<Rightarrow> real \<Rightarrow> rdict \<Rightarrow> rdict \<Rightarrow> store \<Rightarrow> error + (rdict \<times> store)" where
  "finish_st M gamma grad_ent [] st = Inr ([], st)"
| "finish_st M gamma grad_ent ((k, a) # grad_u) st =
     (if M = 0 then Inl ZeroDivisionError
      else (case map_of grad_ent k of None \<Rightarrow> Inl KeyError
            | Some b \<Rightarrow>
           (case bc2 (+) (smul (1 / real M) (st ! a)) (smul gamma (st ! b)) of Inl e \<Rightarrow> Inl e
            | Inr c \<Rightarrow>
           (case alloc c st of (n, st1) \<Rightarrow>
           (case finish_st M gamma grad_ent grad_u st1 of Inl e \<Rightarrow> Inl e
            | Inr (rest, st2) \<Rightarrow> Inr ((k, n) # rest, st2))))))"

text \<open>
  \<^verbatim>\<open>approx_grad_u\<close> on the store: the parameters come as references, the result is a
  dictionary of references into the store as the call leaves it.
\<close>

definition approx_grad_u_st ::
  "'r env \<Rightarrow> nat \<Rightarrow> cparams \<Rightarrow> rdict \<Rightarrow> nat \<Rightarrow> real \<Rightarrow> 'r \<Rightarrow> store
     \<Rightarrow> error + (rdict \<times> 'r \<times> store)" where
  "approx_grad_u_st E batch_size params_critic params_proposal i gamma g st =
     (let rng = seed_rng E i in
      case zeros_like params_proposal st of (grad_u, st1) \<Rightarrow>
      case zeros_like params_proposal st1 of (grad_ent, st2) \<Rightarrow>
      case gaussian_draw E (deref st2 params_proposal) batch_size rng of Inl e \<Rightarrow> Inl e
         | Inr (thetas, rng') \<Rightarrow>
        (case grad_u_loop_st E params_critic params_proposal grad_u thetas g st2 of
           Inl e \<Rightarrow> Inl e
         | Inr (g', st3) \<Rightarrow>
        (case grad_gaussian_entropy E (deref st3 params_proposal) of Inl e \<Rightarrow> Inl e
         | Inr grad_entropy \<Rightarrow>
        (case add_entropy_st grad_ent grad_entropy st3 of Inl e \<Rightarrow> Inl e
         | Inr st4 \<Rightarrow>
        (case finish_st (length thetas) gamma grad_ent grad_u st4 of Inl e \<Rightarrow> Inl e
         | Inr (res, st5) \<Rightarrow> Inr (res, g', st5))))))"

text \<open>
  The result of a call on the store, read back as arrays; the store itself is dropped.
\<close>

definition result_of :: "error + (rdict \<times> 'r \<times> store) \<Rightarrow> error + (pdict \<times> 'r)" where
  "result_of r = (case r of Inl e \<Rightarrow> Inl e | Inr (d, g, st) \<Rightarrow> Inr (deref st d, g))"

text \<open>References that point into a store.\<close>

definition refs_in :: "store \<Rightarrow> rdict \<Rightarrow> bool" where
  "refs_in st d \<longleftrightarrow> (\<forall>(k, a) \<in> set d. a < length st)"

text \<open>A store and references for the small instance.\<close>

definition st0 :: store where
  "st0 = [[0, 0], [0, 0]]"

definition pr0 :: rdict where
  "pr0 = [(''mu'', 0), (''beta'', 1)]"

section \<open>The optimizer\<close>

text \<open>
  Modelled from the spec: the class \<^verbatim>\<open>AdamOptimizer\<close> is in the module \<^verbatim>\<open>nn\<close>,
  which is not part of the sources at hand. An optimizer owns its state: the trial
  parameters it tracks, flattened to one vector, the first and second moment estimates
  of the same length and the step counter; it keeps the structure of the parameters it
  was built from, to give the trial vector that structure again, and its
  hyperparameters.
\<close>

record 'p adam =
  template :: 'p
  trial :: vec
  mom1 :: vec
  mom2 :: vec
  iters :: nat
  step_size :: real
  beta1 :: real
  beta2 :: real
  epsilon :: real









section \<open>The script\<close>




text \<open>
  \<^verbatim>\<open>make_critic(n_features, n_hidden, random_state=None)\<close> draws three weights from
  the generator it is given; the first layer's fan-in is the literal \<open>1\<close>.
\<close>

definition make_critic :: "'r env \<Rightarrow> nat \<Rightarrow> nat \<Rightarrow> 'r \<Rightarrow> cparams \<times> 'r" where
  "make_critic E n_feat n_hidden rng =
     (case glorot_matrix E n_hidden 1 rng of (w0, rng1) \<Rightarrow>
     (case glorot_matrix E n_hidden n_hidden rng1 of (w1, rng2) \<Rightarrow>
     (case glorot_vector E n_hidden rng2 of (w2, rng3) \<Rightarrow>
        (\<lparr>W0 = w0, W1 = w1, W2 = w2,
          b0 = zeros n_hidden, b1 = zeros n_hidden, b2 = zeros 1\<rparr>, rng3))))"

text \<open>
  What the script mutates while it runs: the two parameter structures, the two
  optimizers, the list \<^verbatim>\<open>loss_d\<close> and the state of the process-wide generator. The
  field \<open>trace\<close> is not in the script: it lists the operations carried out so far.
\<close>

datatype op =
  CriticStep | CriticCommit | CriticReset | ProposalStep | ProposalCommit | RecordDiagnostic nat

record 'r state =
  params_critic :: cparams
  params_proposal :: pdict
  opt_critic :: "cparams adam"
  opt_proposal :: "pdict adam"
  loss_d :: "real option list"
  grng :: 'r
  trace :: "op list"















section \<open>The schedule and the conditions under which the script runs through\<close>











section \<open>Properties of the gradient estimator\<close>


lemma keys_shape: "map fst (shape d) = map fst d"
  by (induction d) (auto simp: shape_def)

lemma iadd_length: "iadd a w = Inr a' \<Longrightarrow> length a' = length a"
  by (auto simp: iadd_def split: if_splits)

lemma shape_update:
  "map_of d k = Some a \<Longrightarrow> length a' = length a \<Longrightarrow> shape (AList.update k a' d) = shape d"
  by (induction d) (auto simp: shape_def)

lemma accumulate_shape: "accumulate gu dx gq = Inr gu' \<Longrightarrow> shape gu' = shape gu"
proof (induction gu dx gq rule: accumulate.induct)
  case (1 gu dx)
  then show ?case by simp
next
  case (2 gu dx k v gq)
  from "2.prems" obtain a w a' where
    a: "map_of gu k = Some a" and w: "bc2 (*) (map uminus dx) v = Inr w"
    and a': "iadd a w = Inr a'" and r: "accumulate (AList.update k a' gu) dx gq = Inr gu'"
    by (auto split: option.splits sum.splits)
  from "2.IH"[OF a w a' r] shape_update[OF a iadd_length[OF a']] show ?case by simp
qed

lemma grad_u_loop_shape:
  "grad_u_loop E pc pp gu thetas g = Inr (gu', g') \<Longrightarrow> shape gu' = shape gu"
proof (induction thetas arbitrary: gu g)
  case Nil
  then show ?case by simp
next
  case (Cons theta thetas)
  from Cons.prems obtain x g1 dx gq gu1 where
    "accumulate gu dx gq = Inr gu1"
    "grad_u_loop E pc pp gu1 thetas g1 = Inr (gu', g')"
    by (auto split: sum.splits prod.splits)
  with Cons.IH accumulate_shape show ?case by metis
qed

lemma add_entropy_shape: "add_entropy ge gent = Inr ge' \<Longrightarrow> shape ge' = shape ge"
proof (induction ge gent rule: add_entropy.induct)
  case (1 ge)
  then show ?case by simp
next
  case (2 ge k v gent)
  from "2.prems" obtain a a' where
    a: "map_of ge k = Some a" and a': "iadd a v = Inr a'"
    and r: "add_entropy (AList.update k a' ge) gent = Inr ge'"
    by (auto split: option.splits sum.splits)
  from "2.IH"[OF a a' r] shape_update[OF a iadd_length[OF a']] show ?case by simp
qed

lemma shape_lookup:
  "shape d = shape d' \<Longrightarrow> map_of d k = Some a \<Longrightarrow> \<exists>b. map_of d' k = Some b \<and> length b = length a"
proof (induction d arbitrary: d')
  case Nil
  then show ?case by simp
next
  case (Cons p d)
  then show ?case by (cases d'; cases p) (auto simp: shape_def split: if_splits)
qed

lemma bc2_same_length: "length xs = length ys \<Longrightarrow> bc2 f xs ys = Inr (map2 f xs ys)"
  by (simp add: bc2_def)

lemma finish_shape:
  "finish M gamma ge gu = Inr res \<Longrightarrow>
   \<forall>(k, a) \<in> set gu. \<exists>b. map_of ge k = Some b \<and> length b = length a \<Longrightarrow>
   shape res = shape gu"
proof (induction gu arbitrary: res)
  case Nil
  then show ?case by (simp add: shape_def)
next
  case (Cons p gu)
  obtain k a where p: "p = (k, a)" by (cases p)
  from Cons.prems(2) p obtain b where b: "map_of ge k = Some b" "length b = length a" by auto
  from Cons.prems(1) p b obtain c rest where
    c: "bc2 (+) (smul (1 / real M) a) (smul gamma b) = Inr c"
    and rest: "finish M gamma ge gu = Inr rest" and res: "res = (k, c) # rest"
    by (auto split: if_splits sum.splits)
  from c b have "length c = length a" by (auto simp: bc2_def smul_def)
  moreover from Cons.IH[OF rest] Cons.prems(2) have "shape rest = shape gu" by simp
  ultimately show ?case using p res by (simp add: shape_def)
qed

lemma distinct_lookup:
  "distinct (map fst d) \<Longrightarrow> (k, a) \<in> set d \<Longrightarrow> map_of d k = Some a"
  by simp

lemma approx_grad_u_shape0:
  assumes "approx_grad_u E bs pc pp i gamma g = Inr (d, g')"
    and "distinct (map fst pp)"
  shows "shape d = shape pp"
proof -
  let ?z = "map (\<lambda>(k, v). (k, zeros (length v))) pp"
  have z: "shape ?z = shape pp" by (induction pp) (auto simp: shape_def zeros_def)
  from assms(1) obtain thetas rng' gu gent ge where
    lp: "grad_u_loop E pc pp ?z thetas g = Inr (gu, g')"
    and ae: "add_entropy ?z gent = Inr ge"
    and fi: "finish (length thetas) gamma ge gu = Inr d"
    by (auto simp: approx_grad_u_def Let_def split: sum.splits prod.splits)
  have gu: "shape gu = shape pp" using grad_u_loop_shape[OF lp] z by simp
  have ge: "shape ge = shape pp" using add_entropy_shape[OF ae] z by simp
  have dgu: "distinct (map fst gu)"
    using arg_cong[OF gu, of "map fst"] assms(2) by (simp add: keys_shape)
  have "\<forall>(k, a) \<in> set gu. \<exists>b. map_of ge k = Some b \<and> length b = length a"
  proof (clarify)
    fix k a assume "(k, a) \<in> set gu"
    with dgu have "map_of gu k = Some a" by simp
    with shape_lookup[of gu ge k a] gu ge show "\<exists>b. map_of ge k = Some b \<and> length b = length a"
      by simp
  qed
  from finish_shape[OF fi this] gu show ?thesis by simp
qed



lemma alist_eqI:
  assumes "map fst d = map fst d'" "distinct (map fst d)" "map_of d = map_of d'"
  shows "d = d'"
proof -
  have l: "length (map snd d') = length (map fst d)" "length (map snd d) = length (map fst d)"
    using arg_cong[OF assms(1), of length] by simp_all
  have "map_of (zip (map fst d) (map snd d)) = map_of (zip (map fst d) (map snd d'))"
  proof -
    have a: "zip (map fst d) (map snd d) = d" by (rule zip_map_fst_snd)
    have b: "zip (map fst d) (map snd d') = d'"
      unfolding assms(1) by (rule zip_map_fst_snd)
    show ?thesis unfolding a b by (rule assms(3))
  qed
  from map_of_zip_inject[OF l(2) l(1) assms(2) this] have "map snd d = map snd d'" .
  then have "zip (map fst d) (map snd d) = zip (map fst d') (map snd d')"
    using assms(1) by simp
  then show ?thesis unfolding zip_map_fst_snd .
qed

lemma bc2_score: "length dx = 1 \<Longrightarrow> bc2 (*) (map uminus dx) v = Inr (smul (- hd dx) v)"
  by (cases dx; cases v) (auto simp: bc2_def smul_def intro: nth_equalityI)

lemma accumulate_lookup:
  assumes "distinct (map fst gq)"
    and "\<forall>(k, v) \<in> set gq. \<exists>a. map_of gu k = Some a \<and> length a = length v"
    and "length dx = 1"
  shows "\<exists>gu'. accumulate gu dx gq = Inr gu' \<and>
           (\<forall>k. map_of gu' k =
              map_option (\<lambda>a. case map_of gq k of None \<Rightarrow> a
                               | Some v \<Rightarrow> map2 (+) a (smul (- hd dx) v)) (map_of gu k))"
  using assms(1,2)
proof (induction gq arbitrary: gu)
  case Nil
  then show ?case by (simp add: option.map_ident)
next
  case (Cons p gq)
  obtain k v where p: "p = (k, v)" by (cases p)
  from Cons.prems(2) p obtain a where a: "map_of gu k = Some a" "length a = length v" by auto
  let ?w = "smul (- hd dx) v"
  let ?a' = "map2 (+) a ?w"
  let ?gu1 = "AList.update k ?a' gu"
  have ia: "iadd a ?w = Inr ?a'" using a by (simp add: iadd_def smul_def)
  have knot: "k \<notin> fst ` set gq" using Cons.prems(1) p by simp
  have d: "distinct (map fst gq)" using Cons.prems(1) by simp
  have h: "\<forall>(k', v') \<in> set gq. \<exists>a. map_of ?gu1 k' = Some a \<and> length a = length v'"
  proof clarify
    fix k' v' assume m: "(k', v') \<in> set gq"
    then have "k' \<noteq> k" using knot by force
    moreover from m Cons.prems(2) obtain a1 where "map_of gu k' = Some a1 \<and> length a1 = length v'"
      by auto
    ultimately show "\<exists>a. map_of ?gu1 k' = Some a \<and> length a = length v'"
      by (simp add: update_conv')
  qed
  from Cons.IH[OF d h] obtain gu' where
    r: "accumulate ?gu1 dx gq = Inr gu'"
    and l: "\<And>k'. map_of gu' k' =
              map_option (\<lambda>a. case map_of gq k' of None \<Rightarrow> a
                               | Some v \<Rightarrow> map2 (+) a (smul (- hd dx) v)) (map_of ?gu1 k')"
    by blast
  have "accumulate gu dx (p # gq) = Inr gu'"
    using p a bc2_score[OF assms(3), of v] ia r by simp
  moreover have "map_of gu' k' =
              map_option (\<lambda>a. case map_of (p # gq) k' of None \<Rightarrow> a
                               | Some v \<Rightarrow> map2 (+) a (smul (- hd dx) v)) (map_of gu k')" for k'
  proof (cases "k' = k")
    case True
    have "map_of gq k = None" using knot by (simp add: map_of_eq_None_iff)
    then show ?thesis using True l[of k] a p by (simp add: update_conv')
  next
    case False
    then show ?thesis using l[of k'] p by (simp add: update_conv')
  qed
  ultimately show ?case by blast
qed

lemma scored_draws_loop:
  assumes "scored_draws E pc pp thetas g = Inr (terms, g')"
    and "\<forall>(dx, gq) \<in> set terms. length dx = 1 \<and> grad_dict_of pp gq"
    and "\<forall>k. map_option length (map_of gu k) = map_option length (map_of pp k)"
  shows "\<exists>gu'. grad_u_loop E pc pp gu thetas g = Inr (gu', g') \<and>
           (\<forall>k. map_of gu' k =
              map_option (\<lambda>a. map (\<lambda>c. a ! c +
                  (\<Sum>(dx, gq) \<leftarrow> terms. - hd dx * (the (map_of gq k) ! c))) [0..<length a])
                (map_of gu k))"
  using assms
proof (induction thetas arbitrary: g gu terms)
  case Nil
  then show ?case by (auto simp: option.map_ident map_nth)
next
  case (Cons theta thetas)
  from Cons.prems(1) obtain x g1 dx gq rest where
    si: "simulator E theta 1 g = Inr (x, g1)" and pr: "predict x pc = Inr dx"
    and gq: "grad_gaussian_logpdf E pp theta = Inr gq"
    and re: "scored_draws E pc pp thetas g1 = Inr (rest, g')"
    and te: "terms = (dx, gq) # rest"
    by (auto split: sum.splits prod.splits)
  from Cons.prems(2) te have dx: "length dx = 1" and gd: "grad_dict_of pp gq"
    and rest: "\<forall>(dx, gq) \<in> set rest. length dx = 1 \<and> grad_dict_of pp gq" by auto
  have dq: "distinct (map fst gq)" using gd by (simp add: grad_dict_of_def)
  have len: "map_option length (map_of gq k) = map_option length (map_of gu k)" for k
    using gd Cons.prems(3) by (simp add: grad_dict_of_def)
  have h: "\<forall>(k, v) \<in> set gq. \<exists>a. map_of gu k = Some a \<and> length a = length v"
  proof clarify
    fix k v assume "(k, v) \<in> set gq"
    with dq have "map_of gq k = Some v" by simp
    with len[of k] show "\<exists>a. map_of gu k = Some a \<and> length a = length v"
      by (cases "map_of gu k") auto
  qed
  from accumulate_lookup[OF dq h dx] obtain gu1 where
    ac: "accumulate gu dx gq = Inr gu1"
    and l1: "\<And>k. map_of gu1 k =
              map_option (\<lambda>a. case map_of gq k of None \<Rightarrow> a
                               | Some v \<Rightarrow> map2 (+) a (smul (- hd dx) v)) (map_of gu k)"
    by blast
  have len1: "\<forall>k. map_option length (map_of gu1 k) = map_option length (map_of pp k)"
  proof
    fix k
    show "map_option length (map_of gu1 k) = map_option length (map_of pp k)"
      using l1[of k] len[of k] spec[OF Cons.prems(3), of k]
      by (cases "map_of gu k"; cases "map_of gq k") (auto simp: smul_def)
  qed
  from Cons.IH[OF re rest len1] obtain gu' where
    lp: "grad_u_loop E pc pp gu1 thetas g1 = Inr (gu', g')"
    and l2: "\<And>k. map_of gu' k =
              map_option (\<lambda>a. map (\<lambda>c. a ! c +
                  (\<Sum>(dx, gq) \<leftarrow> rest. - hd dx * (the (map_of gq k) ! c))) [0..<length a])
                (map_of gu1 k)"
    by blast
  have "grad_u_loop E pc pp gu (theta # thetas) g = Inr (gu', g')"
    using si pr gq ac lp by simp
  moreover have "map_of gu' k =
              map_option (\<lambda>a. map (\<lambda>c. a ! c +
                  (\<Sum>(dx, gq) \<leftarrow> terms. - hd dx * (the (map_of gq k) ! c))) [0..<length a])
                (map_of gu k)" for k
  proof (cases "map_of gu k")
    case None
    then show ?thesis using l2[of k] l1[of k] by simp
  next
    case (Some a)
    with len[of k] obtain v where v: "map_of gq k = Some v" "length v = length a"
      by (cases "map_of gq k") auto
    let ?A = "map2 (+) a (smul (- hd dx) v)"
    let ?R = "\<lambda>c. (\<Sum>(dx, gq) \<leftarrow> rest. - hd dx * (the (map_of gq k) ! c))"
    have g1: "map_of gu1 k = Some ?A"
      using l1[of k] Some v by simp
    have la: "length ?A = length a" using v by (simp add: smul_def)
    have e1: "map (\<lambda>c. ?A ! c + ?R c) [0..<length ?A] =
          map (\<lambda>c. a ! c + (- hd dx * (v ! c) + ?R c)) [0..<length a]"
      unfolding la using v by (intro map_cong) (simp_all add: smul_def)
    have e2: "(\<Sum>(dx, gq) \<leftarrow> terms. - hd dx * (the (map_of gq k) ! c)) =
          - hd dx * (v ! c) + ?R c" for c
      unfolding te using v by simp
    have "map_of gu' k = Some (map (\<lambda>c. ?A ! c + ?R c) [0..<length ?A])"
      unfolding l2[of k] g1 by simp
    also have "\<dots> = Some (map (\<lambda>c. a ! c + (- hd dx * (v ! c) + ?R c)) [0..<length a])"
      unfolding e1 ..
    finally show ?thesis unfolding Some e2 by simp
  qed
  ultimately show ?case by blast
qed

lemma add_entropy_lookup:
  assumes "distinct (map fst gent)"
    and "\<forall>(k, v) \<in> set gent. \<exists>a. map_of ge k = Some a \<and> length a = length v"
  shows "\<exists>ge'. add_entropy ge gent = Inr ge' \<and>
           (\<forall>k. map_of ge' k =
              map_option (\<lambda>a. case map_of gent k of None \<Rightarrow> a
                               | Some v \<Rightarrow> map2 (+) a v) (map_of ge k))"
  using assms
proof (induction gent arbitrary: ge)
  case Nil
  then show ?case by (simp add: option.map_ident)
next
  case (Cons p gent)
  obtain k v where p: "p = (k, v)" by (cases p)
  from Cons.prems(2) p obtain a where a: "map_of ge k = Some a" "length a = length v" by auto
  let ?a' = "map2 (+) a v"
  let ?ge1 = "AList.update k ?a' ge"
  have ia: "iadd a v = Inr ?a'" using a by (simp add: iadd_def)
  have knot: "k \<notin> fst ` set gent" using Cons.prems(1) p by simp
  have d: "distinct (map fst gent)" using Cons.prems(1) by simp
  have h: "\<forall>(k', v') \<in> set gent. \<exists>a. map_of ?ge1 k' = Some a \<and> length a = length v'"
  proof clarify
    fix k' v' assume m: "(k', v') \<in> set gent"
    then have "k' \<noteq> k" using knot by force
    moreover from m Cons.prems(2) obtain a1 where "map_of ge k' = Some a1 \<and> length a1 = length v'"
      by auto
    ultimately show "\<exists>a. map_of ?ge1 k' = Some a \<and> length a = length v'"
      by (simp add: update_conv')
  qed
  from Cons.IH[OF d h] obtain ge' where
    r: "add_entropy ?ge1 gent = Inr ge'"
    and l: "\<And>k'. map_of ge' k' =
              map_option (\<lambda>a. case map_of gent k' of None \<Rightarrow> a
                               | Some v \<Rightarrow> map2 (+) a v) (map_of ?ge1 k')"
    by blast
  have "add_entropy ge (p # gent) = Inr ge'"
    using p a ia r by simp
  moreover have "map_of ge' k' =
              map_option (\<lambda>a. case map_of (p # gent) k' of None \<Rightarrow> a
                               | Some v \<Rightarrow> map2 (+) a v) (map_of ge k')" for k'
  proof (cases "k' = k")
    case True
    have "map_of gent k = None" using knot by (simp add: map_of_eq_None_iff)
    then show ?thesis using True l[of k] a p by (simp add: update_conv')
  next
    case False
    then show ?thesis using l[of k'] p by (simp add: update_conv')
  qed
  ultimately show ?case by blast
qed

lemma finish_value:
  assumes "0 < M"
    and "\<forall>(k, a) \<in> set gu. \<exists>b. map_of ge k = Some b \<and> length b = length a"
  shows "finish M gamma ge gu =
           Inr (map (\<lambda>(k, a). (k, map2 (+) (smul (1 / real M) a)
                                         (smul gamma (the (map_of ge k))))) gu)"
  using assms(2)
proof (induction gu)
  case Nil
  then show ?case by simp
next
  case (Cons p gu)
  obtain k a where p: "p = (k, a)" by (cases p)
  from Cons.prems p obtain b where b: "map_of ge k = Some b" "length b = length a" by auto
  have c: "bc2 (+) (smul (1 / real M) a) (smul gamma b) =
             Inr (map2 (+) (smul (1 / real M) a) (smul gamma b))"
    using b by (simp add: bc2_def smul_def)
  have "finish M gamma ge gu =
           Inr (map (\<lambda>(k, a). (k, map2 (+) (smul (1 / real M) a)
                                         (smul gamma (the (map_of ge k))))) gu)"
    using Cons.IH Cons.prems by simp
  then show ?case using p b c assms(1) by simp
qed

lemma scored_draws_length:
  "scored_draws E pc pp thetas g = Inr (terms, g') \<Longrightarrow> length terms = length thetas"
proof (induction thetas arbitrary: g terms)
  case Nil
  then show ?case by simp
next
  case (Cons theta thetas)
  from Cons.prems obtain g1 rest dq where
    "scored_draws E pc pp thetas g1 = Inr (rest, g')" "terms = dq # rest"
    by (auto split: sum.splits prod.splits)
  with Cons.IH show ?case by auto
qed

lemma map_of_zeros:
  "map_of (map (\<lambda>(k, v). (k, zeros (length v))) pp) k =
     map_option (\<lambda>v. zeros (length v)) (map_of pp k)"
  by (induction pp) auto

lemma map_of_shape: "map_of (shape d) k = map_option length (map_of d k)"
  by (induction d) (auto simp: shape_def)

lemma shape_lengths:
  "shape d = shape d' \<Longrightarrow> map_option length (map_of d k) = map_option length (map_of d' k)"
  using map_of_shape[of d k] map_of_shape[of d' k] by simp

lemma length_zeros: "length (zeros n) = n"
  by (simp add: zeros_def)

lemma nth_zeros: "c < n \<Longrightarrow> zeros n ! c = 0"
  by (simp add: zeros_def)

lemma map_of_map_keyed:
  "map_of (map (\<lambda>(k, a). (k, G k a)) xs) k = map_option (G k) (map_of xs k)"
  by (induction xs) auto

lemma average_plus_entropy:
  assumes "length b = n"
  shows "map2 (+) (smul (1 / real M) (map S [0..<n])) (smul gamma b) =
         map (\<lambda>c. S c / real M + gamma * (b ! c)) [0..<n]"
  using assms by (intro nth_equalityI) (simp_all add: smul_def)

lemma approx_grad_u_value:
  assumes draw: "gaussian_draw E pp bs (seed_rng E i) = Inr (thetas, rng')"
    and len: "length thetas = bs" and pos: "0 < bs"
    and sc: "scored_draws E pc pp thetas g = Inr (terms, g')"
    and terms: "\<forall>(dx, gq) \<in> set terms. length dx = 1 \<and> grad_dict_of pp gq"
    and ent: "grad_gaussian_entropy E pp = Inr gent"
    and gent: "grad_dict_of pp gent"
    and dist: "distinct (map fst pp)"
  shows "approx_grad_u E bs pc pp i gamma g = Inr (estimate bs gamma pp terms gent, g')"
proof -
  let ?z = "map (\<lambda>(k, v). (k, zeros (length v))) pp"
  let ?S = "\<lambda>k c. (\<Sum>(dx, gq) \<leftarrow> terms. - hd dx * (the (map_of gq k) ! c))"
  have zs: "shape ?z = shape pp" by (induction pp) (auto simp: shape_def zeros_def)
  have zl: "\<forall>k. map_option length (map_of ?z k) = map_option length (map_of pp k)"
    using shape_lengths[OF zs] by simp
  from scored_draws_loop[OF sc terms zl] obtain gu where
    lp: "grad_u_loop E pc pp ?z thetas g = Inr (gu, g')"
    and gul: "\<And>k. map_of gu k =
              map_option (\<lambda>a. map (\<lambda>c. a ! c + ?S k c) [0..<length a]) (map_of ?z k)"
    by blast
  have gus: "shape gu = shape pp" using grad_u_loop_shape[OF lp] zs by simp
  have gukeys: "map fst gu = map fst pp"
    using arg_cong[OF gus, of "map fst"] by (simp add: keys_shape)
  have dgent: "distinct (map fst gent)" using gent by (simp add: grad_dict_of_def)
  have gl: "map_option length (map_of gent k) = map_option length (map_of pp k)" for k
    using gent by (simp add: grad_dict_of_def)
  have h: "\<forall>(k, v) \<in> set gent. \<exists>a. map_of ?z k = Some a \<and> length a = length v"
  proof clarify
    fix k v assume "(k, v) \<in> set gent"
    with dgent have "map_of gent k = Some v" by simp
    with gl[of k] show "\<exists>a. map_of ?z k = Some a \<and> length a = length v"
      by (cases "map_of pp k") (auto simp: map_of_zeros length_zeros)
  qed
  from add_entropy_lookup[OF dgent h] obtain ge where
    ae: "add_entropy ?z gent = Inr ge"
    and gel: "\<And>k. map_of ge k =
              map_option (\<lambda>a. case map_of gent k of None \<Rightarrow> a
                               | Some v \<Rightarrow> map2 (+) a v) (map_of ?z k)"
    by blast
  have gev: "length b = length v" "b = the (map_of gent k)"
    if "map_of pp k = Some v" and "map_of ge k = Some b" for k v b
  proof -
    from gl[of k] that(1) obtain w where w: "map_of gent k = Some w" "length w = length v"
      by (cases "map_of gent k") auto
    have "map2 (+) (zeros (length v)) w = w"
      using w(2) by (intro nth_equalityI) (simp_all add: length_zeros nth_zeros)
    with gel[of k] that w show "length b = length v" "b = the (map_of gent k)"
      by (simp_all add: map_of_zeros)
  qed
  have guv: "map_of gu k = Some (map (\<lambda>c. ?S k c) [0..<length v])"
    if "map_of pp k = Some v" for k v
    using gul[of k] that by (simp add: map_of_zeros length_zeros nth_zeros cong: map_cong)
  have fh: "\<forall>(k, a) \<in> set gu. \<exists>b. map_of ge k = Some b \<and> length b = length a"
  proof clarify
    fix k a assume m: "(k, a) \<in> set gu"
    then have "k \<in> set (map fst pp)" using gukeys by (metis fst_conv image_eqI set_map)
    then obtain v where v: "map_of pp k = Some v"
      by (metis map_of_eq_None_iff not_Some_eq set_map)
    have "map_of gu k = Some a" using m dist gukeys by simp
    with guv[OF v] have la: "length a = length v" by auto
    from gel[of k] v obtain b where b: "map_of ge k = Some b" by (simp add: map_of_zeros)
    from gev(1)[OF v b] la b show "\<exists>b. map_of ge k = Some b \<and> length b = length a" by simp
  qed
  let ?F = "\<lambda>(k, a). (k, map2 (+) (smul (1 / real (length thetas)) a)
                                  (smul gamma (the (map_of ge k))))"
  have fin: "finish (length thetas) gamma ge gu = Inr (map ?F gu)"
    using finish_value[OF _ fh, of "length thetas" gamma] len pos by simp
  have res: "map ?F gu = estimate bs gamma pp terms gent"
  proof (rule alist_eqI)
    show "map fst (map ?F gu) = map fst (estimate bs gamma pp terms gent)"
      using gukeys by (simp add: estimate_def comp_def case_prod_unfold)
    show "distinct (map fst (map ?F gu))"
      using gukeys dist by (simp add: comp_def case_prod_unfold)
    show "map_of (map ?F gu) = map_of (estimate bs gamma pp terms gent)"
    proof
      fix k
      show "map_of (map ?F gu) k = map_of (estimate bs gamma pp terms gent) k"
      proof (cases "map_of pp k")
        case None
        then have "k \<notin> set (map fst pp)" by (simp add: map_of_eq_None_iff)
        then have "k \<notin> set (map fst gu)" using gukeys by simp
        then have "map_of gu k = None" by (simp add: map_of_eq_None_iff)
        then show ?thesis using None by (simp add: map_of_map_keyed estimate_def)
      next
        case (Some v)
        from gel[of k] Some obtain b where b: "map_of ge k = Some b" by (simp add: map_of_zeros)
        note bl = gev(1)[OF Some b] and bv = gev(2)[OF Some b]
        have "map_of (map ?F gu) k =
            Some (map2 (+) (smul (1 / real (length thetas)) (map (\<lambda>c. ?S k c) [0..<length v]))
                           (smul gamma b))"
          using guv[OF Some] b by (simp add: map_of_map_keyed)
        also have "\<dots> = Some (map (\<lambda>c. ?S k c / real bs + gamma * (b ! c)) [0..<length v])"
          using average_plus_entropy[OF bl, of "length thetas" "?S k" gamma] len by simp
        also have "\<dots> = map_of (estimate bs gamma pp terms gent) k"
          using Some bv by (simp add: estimate_def map_of_map_keyed)
        finally show ?thesis .
      qed
    qed
  qed
  show ?thesis
    using draw lp ent ae fin res by (simp add: approx_grad_u_def)
qed

lemma sim0: "simulator E0 [a, 0] (Suc 0) g = Inr ([[a + real g]], Suc g)"
  by (simp add: simulator_def E0_def)

lemma pred0: "0 < x \<Longrightarrow> predict [[x]] pc0 = Inr [x]"
  by (simp add: predict_def pc0_def hidden_layer_def dot_def bc2_def relu_def)
lemma grad_dict_of_pp0:
  "grad_dict_of pp0 [(''mu'', [a, b]), (''beta'', [c, d])]"
  by (auto simp: grad_dict_of_def pp0_def)

text \<open>
  Claim C1. A call of \<open>approx_grad_u\<close> draws \<open>batch_size\<close> parameter vectors from the
  proposal with the generator seeded by \<open>i\<close>, takes one simulated observation, one critic
  score and one log-density gradient per vector, and returns, for every parameter group,
  the sum of minus score times log-density gradient divided by the number of draws, plus
  \<open>gamma\<close> times the entropy gradient, which enters once and is not divided.
\<close>

theorem approx_grad_u_estimator:
  assumes "gaussian_draw E pp bs (seed_rng E i) = Inr (thetas, rng')"
    and "length thetas = bs" and "0 < bs"
    and "scored_draws E pc pp thetas g = Inr (terms, g')"
    and "\<forall>(dx, gq) \<in> set terms. length dx = 1 \<and> grad_dict_of pp gq"
    and "grad_gaussian_entropy E pp = Inr gent"
    and "grad_dict_of pp gent"
    and "distinct (map fst pp)"
  shows "length terms = bs \<and>
         approx_grad_u E bs pc pp i gamma g = Inr (estimate bs gamma pp terms gent, g')"
  using approx_grad_u_value[OF assms] scored_draws_length[OF assms(4)] assms(2) by simp

theorem approx_grad_u_estimator_witness:
  "gaussian_draw E0 pp0 2 (seed_rng E0 1) = Inr ([[1, 0], [2, 0]], 3) \<and>
   scored_draws E0 pc0 pp0 [[1, 0], [2, 0]] 3 =
     Inr ([([4], [(''mu'', [1, 1]), (''beta'', [1, 1])]),
           ([6], [(''mu'', [2, 2]), (''beta'', [2, 2])])], 5) \<and>
   grad_gaussian_entropy E0 pp0 = Inr [(''mu'', [1, 1]), (''beta'', [1, 1])] \<and>
   approx_grad_u E0 2 pc0 pp0 1 5 3 = Inr ([(''mu'', [- 3, - 3]), (''beta'', [- 3, - 3])], 5)"
proof -
  let ?terms = "[([4], [(''mu'', [1, 1]), (''beta'', [1, 1])]),
                 ([6::real], [(''mu'', [2, 2]), (''beta'', [2, 2::real])])]"
  let ?gent = "[(''mu'', [1, 1]), (''beta'', [1, 1::real])]"
  have h1: "gaussian_draw E0 pp0 2 (seed_rng E0 1) = Inr ([[1, 0], [2, 0]], 3)"
    by (simp add: E0_def numeral_2_eq_2)
  have h2: "length [[1, 0], [2, 0::real]] = 2" and h3: "0 < (2::nat)" by simp_all
  have gq: "grad_gaussian_logpdf E0 pp0 [a, 0] = Inr [(''mu'', [a, a]), (''beta'', [a, a])]" for a
    by (simp add: E0_def pp0_def)
  have h4: "scored_draws E0 pc0 pp0 [[1, 0], [2, 0]] 3 = Inr (?terms, 5)"
    by (simp add: sim0 pred0 gq)
  have h5: "\<forall>(dx, gq) \<in> set ?terms. length dx = 1 \<and> grad_dict_of pp0 gq"
    by (simp add: grad_dict_of_pp0)
  have h6: "grad_gaussian_entropy E0 pp0 = Inr ?gent"
    by (simp add: E0_def pp0_def)
  have h7: "grad_dict_of pp0 ?gent" by (rule grad_dict_of_pp0)
  have h8: "distinct (map fst pp0)" by (simp add: pp0_def)
  have e: "estimate 2 5 pp0 ?terms ?gent = [(''mu'', [- 3, - 3]), (''beta'', [- 3, - 3])]"
    by (simp add: estimate_def pp0_def upt_rec[of 0] upt_rec[of 1])
  from approx_grad_u_estimator[OF h1 h2 h3 h4 h5 h6 h7 h8, of 5] h1 h4 h6 e
  show ?thesis by simp
qed

text \<open>
  Claim C10. Whenever \<open>approx_grad_u\<close> returns for a dictionary of parameter vectors, the
  returned dictionary has the keys of the argument, and every returned array has the
  length of the parameter vector under the same key.
\<close>

theorem approx_grad_u_keys_and_lengths:
  assumes "approx_grad_u E bs pc pp i gamma g = Inr (d, g')"
    and "distinct (map fst pp)"
  shows "map fst d = map fst pp \<and>
         (\<forall>k v. map_of pp k = Some v \<longrightarrow> (\<exists>u. map_of d k = Some u \<and> length u = length v))"
proof -
  have s: "shape d = shape pp" by (rule approx_grad_u_shape0[OF assms])
  have "map fst d = map fst pp"
    using arg_cong[OF s, of "map fst"] by (simp add: keys_shape)
  moreover have "\<exists>u. map_of d k = Some u \<and> length u = length v" if "map_of pp k = Some v" for k v
    using shape_lookup[OF s[symmetric] that] .
  ultimately show ?thesis by blast
qed

theorem approx_grad_u_keys_and_lengths_witness:
  "approx_grad_u E0 2 pc0 pp0 0 5 0 = Inr ([(''mu'', [4, 4]), (''beta'', [4, 4])], 2) \<and>
   distinct (map fst pp0) \<and>
   map fst [(''mu'', [4, 4::real]), (''beta'', [4, 4::real])] = map fst pp0 \<and>
   map_of pp0 ''beta'' = Some [0, 0] \<and>
   (\<exists>u. map_of [(''mu'', [4, 4::real]), (''beta'', [4, 4])] ''beta'' = Some u \<and>
        length u = length [0, 0::real])"
proof -
  have r: "approx_grad_u E0 2 pc0 pp0 0 5 0 = Inr ([(''mu'', [4, 4]), (''beta'', [4, 4])], 2)"
    by (simp add: approx_grad_u_def E0_def pp0_def Let_def zeros_def simulator_def predict_def
        pc0_def hidden_layer_def dot_def bc2_def relu_def iadd_def smul_def numeral_2_eq_2)
  have d: "distinct (map fst pp0)" by (simp add: pp0_def)
  have b: "map_of pp0 ''beta'' = Some [0, 0]" by (simp add: pp0_def)
  from approx_grad_u_keys_and_lengths[OF r d] r d b show ?thesis by blast
qed

section \<open>Properties of the critic's loss\<close>

















lemma penalty_zero:
  assumes "G \<noteq> []" and "\<forall>row \<in> set G. sqrt (\<Sum>x\<leftarrow>row. x ^ 2) = 1"
  shows "gp_term (row_norms G) = Some 0"
proof -
  have "map (\<lambda>n. (n - 1) ^ 2) (row_norms G) = map (\<lambda>row. 0) G"
    using assms(2) by (simp add: row_norms_def)
  then show ?thesis using assms(1) by (simp add: gp_term_def mean_def)
qed

lemma critic_batch0: "critic_batch E0 pp0 X_obs0 1 2 3 = Inr B0"
  by (simp add: critic_batch_def E0_def X_obs0_def B0_def labels_def zeros_def n_features_def
      simulator_def assign_row_def select_rows_def vstack_def Let_def numeral_2_eq_2
      upt_rec[of 0] upt_rec[of 1] upt_rec[of 2] numeral_3_eq_3)

lemma predict0: "predict [[4], [30]] pc0 = Inr [4, 30]"
  by (simp add: predict_def pc0_def hidden_layer_def dot_def bc2_def relu_def)







text \<open>
  Claim C8. If every row of the critic's gradient at the interpolated batch has Euclidean
  norm \<open>1\<close>, the penalty term is \<open>0\<close>, and for every \<open>lambda_gp\<close> the loss returned is
  the Wasserstein term alone.
\<close>

theorem unit_gradient_no_penalty:
  assumes "loss_critic E pp X_obs pc i lam0 bs g = Inr (l0, g0)"
    and "critic_batch E pp X_obs i bs g = Inr B"
    and "rand E (bs div 2) (rng_after B) = (eps, rng3)"
    and "interpolate eps (X_sel B) (X_gen B) = Inr X_hat"
    and "grad_predict_critic E X_hat pc = Inr G"
    and "G \<noteq> []"
    and "\<forall>row \<in> set G. sqrt (\<Sum>x\<leftarrow>row. x ^ 2) = 1"
  shows "gp_term (row_norms G) = Some 0 \<and>
         (\<exists>y_pred l_wgan. predict (X_all B) pc = Inr y_pred \<and>
            wgan_term (y_critic B) y_pred = Inr l_wgan \<and>
            (\<forall>lambda_gp. loss_critic E pp X_obs pc i lambda_gp bs g = Inr (l_wgan, g_after B)))"
proof -
  have z: "gp_term (row_norms G) = Some 0" by (rule penalty_zero[OF assms(6,7)])
  from assms(1,2) obtain y_pred l_wgan where
    p: "predict (X_all B) pc = Inr y_pred" and w: "wgan_term (y_critic B) y_pred = Inr l_wgan"
    by (auto simp: loss_critic_def split: sum.splits)
  have "loss_critic E pp X_obs pc i lambda_gp bs g = Inr (l_wgan, g_after B)" for lambda_gp
    using assms(2,3,4,5) p w z by (cases l_wgan) (simp_all add: loss_critic_def add_scaled_def)
  with z p w show ?thesis by blast
qed

theorem unit_gradient_no_penalty_witness:
  "loss_critic E0 pp0 X_obs0 pc0 1 (1 / 40) 2 3 = Inr (Some (- 13), 4) \<and>
   interpolate [1 / 2] (X_sel B0) (X_gen B0) = Inr [[17]] \<and>
   grad_predict_critic E0 [[17]] pc0 = Inr [[1]] \<and>
   gp_term (row_norms [[1]]) = Some 0 \<and>
   loss_critic E0 pp0 X_obs0 pc0 1 1000 2 3 = Inr (Some (- 13), 4)"
proof -
  have ip: "interpolate [1 / 2] (X_sel B0) (X_gen B0) = Inr [[17]]"
    by (simp add: interpolate_def bcm_def bc2_def B0_def)
  have gr: "grad_predict_critic E0 [[17]] pc0 = Inr [[1]]" by (simp add: E0_def)
  have rd: "rand E0 (2 div 2) (rng_after B0) = ([1 / 2], 4)" by (simp add: E0_def B0_def)
  have wt: "wgan_term (y_critic B0) [4, 30] = Inr (Some (- 13))"
    by (simp add: wgan_term_def bc2_def B0_def mean_def)
  have gp: "gp_term (row_norms [[1]]) = Some 0"
    by (simp add: gp_term_def row_norms_def mean_def)
  have l: "loss_critic E0 pp0 X_obs0 pc0 1 (1 / 40) 2 3 = Inr (Some (- 13), 4)"
    using critic_batch0 rd ip gr wt gp
    by (simp add: loss_critic_def B0_def predict0 add_scaled_def)
  have ne: "[[1::real]] \<noteq> []" by simp
  have n1: "\<forall>row \<in> set [[1::real]]. sqrt (\<Sum>x\<leftarrow>row. x ^ 2) = 1" by simp
  from unit_gradient_no_penalty[OF l critic_batch0 rd ip gr ne n1] obtain y_pred l_wgan where
    a: "predict (X_all B0) pc0 = Inr y_pred" "wgan_term (y_critic B0) y_pred = Inr l_wgan"
    "\<forall>lambda_gp. loss_critic E0 pp0 X_obs0 pc0 1 lambda_gp 2 3 = Inr (l_wgan, g_after B0)"
    by blast
  from a(3) l have "l_wgan = Some (- 13)" "g_after B0 = 4" by simp_all
  with a(3) have "loss_critic E0 pp0 X_obs0 pc0 1 1000 2 3 = Inr (Some (- 13), 4)" by simp
  with l ip gr gp show ?thesis by simp
qed

section \<open>Properties of the training loop\<close>





































































text \<open>
  Claim C4. The claim is that every draw comes from a stream seeded explicitly, so that
  the seed fixes the results. The script seeds a generator with the iteration number in
  \<open>approx_grad_u\<close> and in \<open>loss_critic\<close>, but \<open>approx_grad_u\<close> simulates, \<open>loss_critic\<close>
  draws from the proposal, and \<open>make_critic\<close> initialises, from the process-wide
  generator. On the small instance, with the same seed and the same parameters, two
  states of the process-wide generator give two gradients, two losses and two critics.
\<close>

theorem unseeded_draws_change_results:
  "approx_grad_u E0 2 pc0 pp0 1 5 3 = Inr ([(''mu'', [- 3, - 3]), (''beta'', [- 3, - 3])], 5) \<and>
   approx_grad_u E0 2 pc0 pp0 1 5 0 = Inr ([(''mu'', [3 / 2, 3 / 2]), (''beta'', [3 / 2, 3 / 2])], 2) \<and>
   loss_critic E0 pp0 X_obs0 pc0 1 (1 / 40) 2 3 = Inr (Some (- 13), 4) \<and>
   loss_critic E0 pp0 X_obs0 pc0 1 (1 / 40) 2 0 = Inr (Some (- 29 / 2), 1) \<and>
   fst (make_critic E0 1 10 0) \<noteq> fst (make_critic E0 1 10 1)"
proof -
  have a: "approx_grad_u E0 2 pc0 pp0 1 5 g =
      Inr ([(''mu'', [(3 - 3 * real g) / 2, (3 - 3 * real g) / 2]),
            (''beta'', [(3 - 3 * real g) / 2, (3 - 3 * real g) / 2])], Suc (Suc g))" for g
    by (simp add: approx_grad_u_def E0_def pp0_def Let_def zeros_def simulator_def predict_def
        pc0_def hidden_layer_def dot_def bc2_def relu_def iadd_def smul_def numeral_2_eq_2
        field_simps)
  have b: "loss_critic E0 pp0 X_obs0 pc0 1 (1 / 40) 2 g = Inr (Some ((real g - 29) / 2), Suc g)" for g
    by (simp add: loss_critic_def critic_batch_def E0_def X_obs0_def labels_def zeros_def
        n_features_def simulator_def assign_row_def select_rows_def vstack_def Let_def
        numeral_2_eq_2 upt_rec[of 0] upt_rec[of 1] upt_rec[of 2] numeral_3_eq_3
        predict_def pc0_def hidden_layer_def dot_def bc2_def relu_def wgan_term_def mean_def
        interpolate_def bcm_def gp_term_def row_norms_def add_scaled_def field_simps)
  have c: "fst (make_critic E0 1 10 0) \<noteq> fst (make_critic E0 1 10 1)"
    by (simp add: make_critic_def E0_def numeral_eq_Suc)
  show ?thesis using a[of 3] a[of 0] b[of 3] b[of 0] c by simp
qed




end
